theory Spec2Isabelle
  imports Main "HOL-Library.Word"
begin

section \<open>JavaScript strings\<close>

text \<open>
  A JavaScript string is a sequence of UTF-16 code units; \<open>s[0]\<close>, \<open>slice\<close> and the
  regular expressions of the sources all work on code units. Program-level tags (token
  types, property names) are plain ASCII and are kept as HOL strings.
\<close>

type_synonym jschar = "16 word"
type_synonym jsstring = "jschar list"

definition js :: "string \<Rightarrow> jsstring" where
  "js s = map of_char s"

definition LF :: jschar where "LF = 0x0A"
definition CR :: jschar where "CR = 0x0D"
definition ESC :: jschar where "ESC = 0x1B"

datatype js_error = Error | TypeError

section \<open>The token stream\<close>

text \<open>A token is the pair \<open>[type, value]\<close> that the highlighter reads.\<close>

type_synonym token = "string \<times> jsstring"

text \<open>
  Modelled from the spec: the tokenizer (\<open>tokenize.js\<close>) is not among the sources. Its
  processor is the spec's TokenStream: \<open>nextToken()\<close> advances one token, \<open>back(token)\<close>
  returns exactly one token to be redelivered by the next \<open>nextToken()\<close>, \<open>endOfFile()\<close>
  tells whether anything is left. The state of the stream is the sequence of tokens it
  has still to deliver. At the end \<open>nextToken()\<close> has nothing to return (\<open>undefined\<close>).
\<close>

type_synonym processor = "token list"

definition endOfFile :: "processor \<Rightarrow> bool" where
  "endOfFile p = (p = [])"

definition nextToken :: "processor \<Rightarrow> token option \<times> processor" where
  "nextToken p = (case p of [] \<Rightarrow> (None, []) | t # ts \<Rightarrow> (Some t, ts))"

definition "back" :: "token \<Rightarrow> processor \<Rightarrow> processor" where
  "back t p = t # p"

section \<open>Classifying a token\<close>

text \<open>\<open>value[0]\<close>: the first code unit, \<open>undefined\<close> for the empty string.\<close>

definition first_unit :: "jsstring \<Rightarrow> jschar option" where
  "first_unit v = (case v of [] \<Rightarrow> None | c # _ \<Rightarrow> Some c)"

text \<open>
  \<open>getTokenType([type, value], processor)\<close> returns the category and leaves the processor
  in the state returned as second component. Reading \<open>next[0]\<close> of an \<open>undefined\<close> token
  would raise a TypeError.
\<close>

definition getTokenType :: "token \<Rightarrow> processor \<Rightarrow> js_error + (string \<times> processor)" where
  "getTokenType tok processor =
    (case tok of (type, val) \<Rightarrow>
      if type = ''word'' \<and> first_unit val = Some (of_char CHR ''.'') then Inr (''class'', processor)
      else if type = ''word'' \<and> first_unit val = Some (of_char CHR ''#'') then Inr (''hash'', processor)
      else if \<not> endOfFile processor then
        (case nextToken processor of
          (None, p1) \<Rightarrow> Inl TypeError
        | (Some next, p1) \<Rightarrow>
            let p2 = back next p1 in
            if fst next = ''brackets'' \<or> fst next = ''('' then Inr (''call'', p2)
            else Inr (type, p2))
      else Inr (type, processor))"

section \<open>Rendering\<close>

text \<open>
  Modelled from the spec: the colour primitives (\<open>chalk\<close>, reached through \<open>deps.js\<close>)
  are external pure string-to-string functions. Each wraps its argument in an ANSI
  colour-control sequence and the foreground reset; the empty string stays empty.
\<close>

datatype chalk = cyan | gray | green | yellow | magenta

definition ansi_open :: "chalk \<Rightarrow> jsstring" where
  "ansi_open c = ESC # js (case c of cyan \<Rightarrow> ''[36m'' | gray \<Rightarrow> ''[90m'' | green \<Rightarrow> ''[32m''
                              | yellow \<Rightarrow> ''[33m'' | magenta \<Rightarrow> ''[35m'')"

definition ansi_close :: jsstring where
  "ansi_close = ESC # js ''[39m''"

definition paint :: "chalk \<Rightarrow> jsstring \<Rightarrow> jsstring" where
  "paint c s = (if s = [] then [] else ansi_open c @ s @ ansi_close)"

definition HIGHLIGHT_THEME :: "(string \<times> chalk) list" where
  "HIGHLIGHT_THEME =
    [(''brackets'', cyan), (''at-word'', cyan), (''comment'', gray), (''string'', green),
     (''class'', yellow), (''call'', cyan), (''hash'', magenta), (''('', cyan), ('')'', cyan),
     (''{'', yellow), (''}'', yellow), (''['', yellow), ('']'', yellow), ('':'', yellow),
     ('';'', yellow)]"

text \<open>\<open>s.split(/\r?\n/)\<close>: cut at every line feed, together with a carriage return
  directly before it.\<close>

definition push_unit :: "jschar \<Rightarrow> jsstring list \<Rightarrow> jsstring list" where
  "push_unit c segs = (case segs of [] \<Rightarrow> [[c]] | seg # rest \<Rightarrow> (c # seg) # rest)"

fun split_lines :: "jsstring \<Rightarrow> jsstring list" where
  "split_lines [] = [[]]"
| "split_lines [c] = (if c = LF then [[], []] else [[c]])"
| "split_lines (c # d # cs) =
     (if c = LF then [] # split_lines (d # cs)
      else if c = CR \<and> d = LF then [] # split_lines cs
      else push_unit c (split_lines (d # cs)))"

text \<open>\<open>segs.join("\n")\<close>\<close>

fun join_lines :: "jsstring list \<Rightarrow> jsstring" where
  "join_lines [] = []"
| "join_lines [s] = s"
| "join_lines (s # t # rest) = s @ LF # join_lines (t # rest)"

text \<open>The loop of \<open>terminalHighlight\<close> over the processor, with the string built so far.\<close>

function terminalHighlight_loop :: "processor \<Rightarrow> jsstring \<Rightarrow> js_error + jsstring" where
  "terminalHighlight_loop processor result =
    (if \<not> endOfFile processor then
       (case nextToken processor of
          (None, p1) \<Rightarrow> Inl TypeError
        | (Some token, p1) \<Rightarrow>
            (case getTokenType token p1 of
               Inl e \<Rightarrow> Inl e
             | Inr (category, p2) \<Rightarrow>
                 (case map_of HIGHLIGHT_THEME category of
                    Some color \<Rightarrow>
                      terminalHighlight_loop p2
                        (result @ join_lines (map (paint color) (split_lines (snd token))))
                  | None \<Rightarrow> terminalHighlight_loop p2 (result @ snd token))))
     else Inr result)"
  by pat_completeness auto

text \<open>Classifying never changes the processor: the peeked token is handed back.\<close>

lemma getTokenType_processor:
  "getTokenType tok p = Inr (c, p') \<Longrightarrow> p' = p"
  by (cases p) (auto simp: getTokenType_def endOfFile_def nextToken_def back_def Let_def
      split: prod.splits if_splits)

termination terminalHighlight_loop
  by (relation "measure (\<lambda>(p, r). length p)")
    (auto simp: nextToken_def endOfFile_def dest: getTokenType_processor split: list.splits)

declare terminalHighlight_loop.simps [simp del]

text \<open>
  Removing colour-control sequences: every \<open>ESC [ parameters m\<close> is dropped, the
  parameters being digits and semicolons.
\<close>

fun sgr_params :: "jsstring \<Rightarrow> jsstring option" where
  "sgr_params [] = None"
| "sgr_params (c # cs) =
     (if c = of_char CHR ''m'' then Some cs
      else if (0x30 \<le> c \<and> c \<le> 0x39) \<or> c = of_char CHR '';'' then sgr_params cs
      else None)"

definition sgr_tail :: "jsstring \<Rightarrow> jsstring option" where
  "sgr_tail cs = (case cs of [] \<Rightarrow> None | b # ds \<Rightarrow> if b = of_char CHR ''['' then sgr_params ds else None)"

lemma sgr_params_length: "sgr_params cs = Some r \<Longrightarrow> length r < length cs"
  by (induction cs) (auto split: if_splits)

lemma sgr_tail_length: "sgr_tail cs = Some r \<Longrightarrow> length r < length cs"
  by (cases cs) (auto simp: sgr_tail_def split: if_splits dest: sgr_params_length)

function strip_colors :: "jsstring \<Rightarrow> jsstring" where
  "strip_colors [] = []"
| "strip_colors (c # cs) =
     (if c = ESC then (case sgr_tail cs of Some r \<Rightarrow> strip_colors r | None \<Rightarrow> c # strip_colors cs)
      else c # strip_colors cs)"
  by pat_completeness auto

termination strip_colors
  by (relation "measure length") (auto dest: sgr_tail_length)

text \<open>The text with every carriage return that stands directly before a line feed removed.\<close>

fun crlf_to_lf :: "jsstring \<Rightarrow> jsstring" where
  "crlf_to_lf [] = []"
| "crlf_to_lf [c] = [c]"
| "crlf_to_lf (c # d # cs) =
     (if c = CR \<and> d = LF then LF # crlf_to_lf cs else c # crlf_to_lf (d # cs))"

text \<open>The category of a token as a function of the token that follows it, if any
  (the rules of the classifier in the order the spec lists them).\<close>

definition category_of :: "token \<Rightarrow> token option \<Rightarrow> string" where
  "category_of tok following =
     (if fst tok = ''word'' \<and> first_unit (snd tok) = Some (of_char CHR ''.'') then ''class''
      else if fst tok = ''word'' \<and> first_unit (snd tok) = Some (of_char CHR ''#'') then ''hash''
      else (case following of
              Some n \<Rightarrow> if fst n = ''brackets'' \<or> fst n = ''('' then ''call'' else fst tok
            | None \<Rightarrow> fst tok))"

text \<open>What is left of a rendered token sequence once the colours are gone: each value in
  stream order, with \<open>crlf_to_lf\<close> applied to the values that received a colour.\<close>

fun plain_text :: "token list \<Rightarrow> jsstring" where
  "plain_text [] = []"
| "plain_text (t # ts) =
     (case map_of HIGHLIGHT_THEME (category_of t (case ts of [] \<Rightarrow> None | n # _ \<Rightarrow> Some n)) of
        Some color \<Rightarrow> crlf_to_lf (snd t)
      | None \<Rightarrow> snd t) @ plain_text ts"

text \<open>The rendering of a token sequence, token by token: the painted lines of a value
  that has a colour, the value itself otherwise.\<close>

fun rendered :: "token list \<Rightarrow> jsstring" where
  "rendered [] = []"
| "rendered (t # ts) =
     (case map_of HIGHLIGHT_THEME (category_of t (case ts of [] \<Rightarrow> None | n # _ \<Rightarrow> Some n)) of
        Some color \<Rightarrow> join_lines (map (paint color) (split_lines (snd t)))
      | None \<Rightarrow> snd t) @ rendered ts"

text \<open>Whether a text has a carriage return directly before a line feed.\<close>

fun contains_crlf :: "jsstring \<Rightarrow> bool" where
  "contains_crlf (c # d # cs) = ((c = CR \<and> d = LF) \<or> contains_crlf (d # cs))"
| "contains_crlf cs = False"

section \<open>The source input\<close>

text \<open>
  JavaScript values of a diagnostic object: numbers, strings and nested objects. An object
  is its list of own properties; assigning a property replaces it or adds it at the end.
\<close>

datatype jsval = Num int | Str jsstring | Obj "(string \<times> jsval) list"

fun set_prop :: "string \<Rightarrow> jsval \<Rightarrow> (string \<times> jsval) list \<Rightarrow> (string \<times> jsval) list" where
  "set_prop k v [] = [(k, v)]"
| "set_prop k v (p # ps) = (if fst p = k then (k, v) # ps else p # set_prop k v ps)"

definition get_prop :: "(string \<times> jsval) list \<Rightarrow> string \<Rightarrow> jsval option" where
  "get_prop obj k = map_of obj k"

text \<open>A string-or-undefined in a condition: \<open>undefined\<close> and the empty string are falsy.\<close>

definition truthy :: "jsstring option \<Rightarrow> bool" where
  "truthy v = (case v of None \<Rightarrow> False | Some s \<Rightarrow> s \<noteq> [])"

text \<open>\<open>a || b\<close> on a string-or-undefined \<open>a\<close>.\<close>

definition or_else :: "jsstring option \<Rightarrow> jsstring \<Rightarrow> jsstring" where
  "or_else a b = (case a of None \<Rightarrow> b | Some s \<Rightarrow> if s = [] then b else s)"

text \<open>\<open>/^\w+:\/\//.test(s)\<close>: one or more word characters at the start, then \<open>://\<close>. A colon is
  not a word character, so the run of word characters is the longest one.\<close>

definition word_unit :: "jschar \<Rightarrow> bool" where
  "word_unit c = ((0x30 \<le> c \<and> c \<le> 0x39) \<or> (0x41 \<le> c \<and> c \<le> 0x5A) \<or> c = 0x5F
                  \<or> (0x61 \<le> c \<and> c \<le> 0x7A))"

definition is_url :: "jsstring \<Rightarrow> bool" where
  "is_url s = (takeWhile word_unit s \<noteq> [] \<and> take 3 (dropWhile word_unit s) = js ''://'')"

text \<open>The \<open>path\<close> module of \<open>deps.js\<close> is an external collaborator and a parameter of the
  model: \<open>path.isAbsolute(p)\<close> and \<open>path.resolve(...segments)\<close>.\<close>

record path_module =
  isAbsolute :: "jsstring \<Rightarrow> bool"
  resolve :: "jsstring list \<Rightarrow> jsstring"

text \<open>
  The source-map consumer is an external capability: its declared \<open>file\<close> and
  \<open>sourceRoot\<close>, and the two queries \<open>originalPositionFor({line, column})\<close> (whose answer has
  a null \<open>source\<close> when the position is unmapped) and \<open>sourceContentFor(source)\<close>.
\<close>

record original_position =
  p_source :: "jsstring option"
  p_line :: int
  p_column :: int

record map_consumer =
  mc_file :: "jsstring option"
  sourceRoot :: "jsstring option"
  originalPositionFor :: "int \<Rightarrow> int \<Rightarrow> original_position"
  sourceContentFor :: "jsstring \<Rightarrow> jsstring option"

text \<open>The previous map (\<open>previous-map.js\<close>, not among the sources) as the input uses it:
  its decoded \<open>text\<close>, its \<open>consumer()\<close> and its late-bound \<open>file\<close>.\<close>

record previous_map =
  pm_text :: "jsstring option"
  consumer :: map_consumer
  pm_file :: "jsstring option"

record input_opts =
  opts_from :: "jsstring option"
  opts_map :: "jsval option"

record Input =
  css :: jsstring
  hasBOM :: bool
  "file" :: "jsstring option"
  id' :: "jsstring option"
  map' :: "previous_map option"

text \<open>The argument \<open>css\<close> of the constructor: \<open>null\<close>, \<open>undefined\<close>, an object without
  \<open>toString\<close>, or a value whose \<open>toString()\<close> is the given text (a string is its own).\<close>

datatype css_arg = CssNull | CssUndefined | CssNoToString | CssText jsstring

text \<open>\<open>mapResolve(file)\<close>. Reading \<open>this.map.consumer()\<close> with no map linked raises a
  TypeError.\<close>

definition mapResolve :: "path_module \<Rightarrow> Input \<Rightarrow> jsstring \<Rightarrow> js_error + jsstring" where
  "mapResolve path this f =
     (if is_url f then Inr f
      else (case map' this of
              None \<Rightarrow> Inl TypeError
            | Some m \<Rightarrow>
                Inr (resolve path [or_else (sourceRoot (consumer m)) (js ''.''), f])))"

text \<open>The getter \<open>from\<close>: \<open>this.file || this.id\<close>.\<close>

definition input_from :: "Input \<Rightarrow> jsstring option" where
  "input_from this = (if truthy (file this) then file this else id' this)"

text \<open>
  The module-level counter \<open>sequence\<close> is threaded through the constructor. It holds the
  number of identifiers given out so far, a natural number here; a JavaScript number
  holds such a count exactly as long as it is below \<open>2^53\<close>, and prints it in decimal
  notation.
\<close>

function decimal :: "nat \<Rightarrow> jsstring" where
  "decimal n = (if n < 10 then [of_nat (48 + n)] else decimal (n div 10) @ [of_nat (48 + n mod 10)])"
  by pat_completeness auto

termination decimal
  by (relation "measure id") auto

declare decimal.simps [simp del]

definition synthetic_id :: "nat \<Rightarrow> jsstring" where
  "synthetic_id n = js ''<input css '' @ decimal n @ js ''>''"

text \<open>The constructor, block by block. First the byte-order marker.\<close>

definition strip_bom :: "Input \<Rightarrow> Input" where
  "strip_bom this =
     (if first_unit (css this) = Some 0xFEFF \<or> first_unit (css this) = Some 0xFFFE
      then this\<lparr>hasBOM := True, css := drop 1 (css this)\<rparr>
      else this\<lparr>hasBOM := False\<rparr>)"

text \<open>The \<open>from\<close> option.\<close>

definition resolve_from :: "path_module \<Rightarrow> input_opts \<Rightarrow> Input \<Rightarrow> Input" where
  "resolve_from path opts this =
     (case opts_from opts of
        None \<Rightarrow> this
      | Some f \<Rightarrow>
          if f = [] then this
          else if is_url f \<or> isAbsolute path f then this\<lparr>file := Some f\<rparr>
          else this\<lparr>file := Some (resolve path [f])\<rparr>)"

text \<open>Linking the previous map, and taking the file the map declares when none is known.\<close>

definition link_map :: "path_module \<Rightarrow> previous_map \<Rightarrow> Input \<Rightarrow> js_error + Input" where
  "link_map path m this =
     (if truthy (pm_text m) then
        (let this1 = this\<lparr>map' := Some m\<rparr>; f = mc_file (consumer m) in
         if \<not> truthy (file this1) \<and> truthy f then
           (case mapResolve path this1 (or_else f []) of
              Inl e \<Rightarrow> Inl e
            | Inr r \<Rightarrow> Inr (this1\<lparr>file := Some r\<rparr>))
         else Inr this1)
      else Inr this)"

text \<open>The synthetic identifier, with the counter before and after.\<close>

definition assign_id :: "nat \<Rightarrow> Input \<Rightarrow> Input \<times> nat" where
  "assign_id sequence this =
     (if \<not> truthy (file this) then (this\<lparr>id' := Some (synthetic_id (sequence + 1))\<rparr>, sequence + 1)
      else (this, sequence))"

text \<open>\<open>if (this.map) this.map.file = this.from\<close>\<close>

definition bind_map_file :: "Input \<Rightarrow> Input" where
  "bind_map_file this =
     (case map' this of
        None \<Rightarrow> this
      | Some m \<Rightarrow> this\<lparr>map' := Some (m\<lparr>pm_file := input_from this\<rparr>)\<rparr>)"

text \<open>\<open>new Input(css, opts)\<close>, given the path module, the constructor of the previous map
  and the counter; it returns the input and the counter, or the error raised.\<close>

definition Input_constructor ::
  "path_module \<Rightarrow> (jsstring \<Rightarrow> input_opts \<Rightarrow> previous_map) \<Rightarrow> nat \<Rightarrow> css_arg \<Rightarrow> input_opts
     \<Rightarrow> js_error + (Input \<times> nat)" where
  "Input_constructor path PreviousMap sequence css_in opts =
     (case css_in of
        CssNull \<Rightarrow> Inl Error
      | CssNoToString \<Rightarrow> Inl Error
      | CssUndefined \<Rightarrow> Inl TypeError
      | CssText t \<Rightarrow>
          (let this0 = strip_bom \<lparr>css = t, hasBOM = False, file = None, id' = None, map' = None\<rparr>;
               this1 = resolve_from path opts this0
           in case link_map path (PreviousMap (css this1) opts) this1 of
                Inl e \<Rightarrow> Inl e
              | Inr this2 \<Rightarrow>
                  (case assign_id sequence this2 of
                     (this3, sequence') \<Rightarrow> Inr (bind_map_file this3, sequence'))))"

text \<open>Constructing inputs one after another in one process: each construction starts
  from the counter the one before left; the first error raised ends the run.\<close>

fun construct_all ::
  "path_module \<Rightarrow> (jsstring \<Rightarrow> input_opts \<Rightarrow> previous_map) \<Rightarrow> nat \<Rightarrow> (css_arg \<times> input_opts) list
     \<Rightarrow> js_error + (Input list \<times> nat)" where
  "construct_all path PreviousMap sequence [] = Inr ([], sequence)"
| "construct_all path PreviousMap sequence (a # rest) =
     (case Input_constructor path PreviousMap sequence (fst a) (snd a) of
        Inl e \<Rightarrow> Inl e
      | Inr (this, sequence1) \<Rightarrow>
          (case construct_all path PreviousMap sequence1 rest of
             Inl e \<Rightarrow> Inl e
           | Inr (inputs, sequence2) \<Rightarrow> Inr (this # inputs, sequence2)))"

text \<open>The text the constructor stores for a given text, and the test that a construction
  from a text and options learns no file: no \<open>from\<close> option, and no file declared by a
  previous map that has text.\<close>

definition stored_text :: "jsstring \<Rightarrow> jsstring" where
  "stored_text t = css (strip_bom \<lparr>css = t, hasBOM = False, file = None, id' = None, map' = None\<rparr>)"

definition anonymous :: "(jsstring \<Rightarrow> input_opts \<Rightarrow> previous_map) \<Rightarrow> jsstring \<times> input_opts \<Rightarrow> bool" where
  "anonymous PreviousMap a =
     (\<not> truthy (opts_from (snd a))
      \<and> \<not> (truthy (pm_text (PreviousMap (stored_text (fst a)) (snd a)))
           \<and> truthy (mc_file (consumer (PreviousMap (stored_text (fst a)) (snd a))))))"

text \<open>Reading a decimal numeral back.\<close>

definition undecimal :: "jsstring \<Rightarrow> nat" where
  "undecimal ds = foldl (\<lambda>a c. 10 * a + (unat c - 48)) 0 ds"

text \<open>\<open>origin(line, column)\<close>: the queries made to the consumer, in order, and the result
  (\<open>None\<close> is the \<open>false\<close> of the source).\<close>

datatype map_query = OriginalPositionFor int int | SourceContentFor jsstring

record origin_result =
  o_file :: jsstring
  o_line :: int
  o_column :: int
  o_source :: "jsstring option"

definition origin ::
  "path_module \<Rightarrow> Input \<Rightarrow> int \<Rightarrow> int \<Rightarrow> map_query list \<times> (js_error + origin_result option)" where
  "origin path this line column =
     (case map' this of
        None \<Rightarrow> ([], Inr None)
      | Some m \<Rightarrow>
          (let from = originalPositionFor (consumer m) line column in
           case p_source from of
             None \<Rightarrow> ([OriginalPositionFor line column], Inr None)
           | Some src \<Rightarrow>
               if src = [] then ([OriginalPositionFor line column], Inr None)
               else (case mapResolve path this src of
                       Inl e \<Rightarrow> ([OriginalPositionFor line column], Inl e)
                     | Inr f \<Rightarrow>
                         (let source = sourceContentFor (consumer m) src in
                          ([OriginalPositionFor line column, SourceContentFor src],
                           Inr (Some \<lparr>o_file = f, o_line = p_line from, o_column = p_column from,
                                      o_source = (if truthy source then source else None)\<rparr>))))))"

text \<open>
  Modelled from the spec: the diagnostic class (\<open>css-syntax-error.js\<close>) is not among the
  sources. Its constructor takes \<open>(message, line, column, source, file, plugin)\<close> and the
  spec gives the diagnostic the properties \<open>message\<close>, \<open>line\<close>, \<open>column\<close>, \<open>source\<close>, and
  \<open>file\<close> and \<open>plugin\<close> when there are any.
\<close>

definition opt_prop :: "string \<Rightarrow> jsstring option \<Rightarrow> (string \<times> jsval) list" where
  "opt_prop k v = (case v of None \<Rightarrow> [] | Some s \<Rightarrow> [(k, Str s)])"

definition CssSyntaxError ::
  "jsstring \<Rightarrow> int \<Rightarrow> int \<Rightarrow> jsstring option \<Rightarrow> jsstring option \<Rightarrow> jsstring option
     \<Rightarrow> (string \<times> jsval) list" where
  "CssSyntaxError message line column source file_arg plugin =
     [(''message'', Str message), (''line'', Num line), (''column'', Num column)]
       @ opt_prop ''source'' source @ opt_prop ''file'' file_arg @ opt_prop ''plugin'' plugin"

text \<open>\<open>error(message, line, column, opts)\<close> with \<open>opts.plugin\<close>.\<close>

definition error ::
  "path_module \<Rightarrow> Input \<Rightarrow> jsstring \<Rightarrow> int \<Rightarrow> int \<Rightarrow> jsstring option
     \<Rightarrow> js_error + (string \<times> jsval) list" where
  "error path this message line column plugin =
     (case snd (origin path this line column) of
        Inl e \<Rightarrow> Inl e
      | Inr orig \<Rightarrow>
          (let result =
                 (case orig of
                    Some org \<Rightarrow>
                      CssSyntaxError message (o_line org) (o_column org) (o_source org)
                        (Some (o_file org)) plugin
                  | None \<Rightarrow> CssSyntaxError message line column (Some (css this)) (file this) plugin);
               input = [(''line'', Num line), (''column'', Num column), (''source'', Str (css this))];
               input' = (if truthy (file this) then set_prop ''file'' (Str (or_else (file this) [])) input
                         else input)
           in Inr (set_prop ''input'' (Obj input') result)))"

text \<open>The secondary location that \<open>error\<close> attaches, written out: line, column and the
  text of the input, and the file when the input has one.\<close>

definition input_location :: "Input \<Rightarrow> int \<Rightarrow> int \<Rightarrow> (string \<times> jsval) list" where
  "input_location this line column =
     [(''line'', Num line), (''column'', Num column), (''source'', Str (css this))]
       @ (case file this of None \<Rightarrow> [] | Some f \<Rightarrow> if f = [] then [] else [(''file'', Str f)])"

text \<open>\<open>terminalHighlight(css)\<close>: the input is built with no options, the tokenizer (a
  parameter: its lexical rules are external) reads the stored text, and the loop renders
  its tokens. The construction moves the counter.\<close>

definition terminalHighlight ::
  "path_module \<Rightarrow> (jsstring \<Rightarrow> input_opts \<Rightarrow> previous_map) \<Rightarrow> (jsstring \<Rightarrow> token list) \<Rightarrow> nat
     \<Rightarrow> css_arg \<Rightarrow> js_error + (jsstring \<times> nat)" where
  "terminalHighlight path PreviousMap tokenizer sequence css_in =
     (case Input_constructor path PreviousMap sequence css_in \<lparr>opts_from = None, opts_map = None\<rparr> of
        Inl e \<Rightarrow> Inl e
      | Inr (input, sequence') \<Rightarrow>
          (case terminalHighlight_loop (tokenizer (css input)) [] of
             Inl e \<Rightarrow> Inl e
           | Inr result \<Rightarrow> Inr (result, sequence')))"

section \<open>Instances of the external collaborators\<close>

text \<open>
  A path module in the POSIX style, resolving against the working directory \<open>/work\<close>: an
  absolute segment replaces what stands before it, an empty or \<open>.\<close> segment changes
  nothing, any other segment is appended.
\<close>

definition join_segment :: "jsstring \<Rightarrow> jsstring \<Rightarrow> jsstring" where
  "join_segment acc seg =
     (if seg = [] \<or> seg = js ''.'' then acc
      else if first_unit seg = Some (of_char CHR ''/'') then seg
      else acc @ js ''/'' @ seg)"

definition work_path :: path_module where
  "work_path = \<lparr>isAbsolute = (\<lambda>p. first_unit p = Some (of_char CHR ''/'')),
                 resolve = foldl join_segment (js ''/work'')\<rparr>"

text \<open>A consumer that maps nothing, and the previous map of a text that carries no map.\<close>

definition unmapped :: original_position where
  "unmapped = \<lparr>p_source = None, p_line = 0, p_column = 0\<rparr>"

definition empty_consumer :: map_consumer where
  "empty_consumer = \<lparr>mc_file = None, sourceRoot = None,
                      originalPositionFor = (\<lambda>line column. unmapped),
                      sourceContentFor = (\<lambda>src. None)\<rparr>"

definition no_previous_map :: "jsstring \<Rightarrow> input_opts \<Rightarrow> previous_map" where
  "no_previous_map text opts = \<lparr>pm_text = None, consumer = empty_consumer, pm_file = None\<rparr>"

text \<open>A previous map from a Sass compilation: generated line 2, column 5 comes from
  \<open>a.sass\<close>, line 10, column 3; nothing else is mapped and no source content is embedded.\<close>

definition sass_consumer :: map_consumer where
  "sass_consumer = \<lparr>mc_file = None, sourceRoot = None,
      originalPositionFor = (\<lambda>line column.
        if line = 2 \<and> column = 5 then \<lparr>p_source = Some (js ''a.sass''), p_line = 10, p_column = 3\<rparr>
        else unmapped),
      sourceContentFor = (\<lambda>src. None)\<rparr>"

definition sass_map :: previous_map where
  "sass_map = \<lparr>pm_text = Some (js ''{}''), consumer = sass_consumer, pm_file = None\<rparr>"

text \<open>An anonymous input linked to that map.\<close>

definition sass_input :: Input where
  "sass_input = \<lparr>css = js ''a{}'', hasBOM = False, file = None, id' = Some (synthetic_id 1),
                  map' = Some sass_map\<rparr>"

definition no_opts :: input_opts where
  "no_opts = \<lparr>opts_from = None, opts_map = None\<rparr>"

section \<open>Properties of the constructor\<close>

lemma link_map_Inr:
  "link_map path m this =
     Inr (if truthy (pm_text m) then
            (if \<not> truthy (file this) \<and> truthy (mc_file (consumer m)) then
               this\<lparr>map' := Some m,
                    file := Some (if is_url (or_else (mc_file (consumer m)) [])
                                  then or_else (mc_file (consumer m)) []
                                  else resolve path [or_else (sourceRoot (consumer m)) (js ''.''),
                                                     or_else (mc_file (consumer m)) []])\<rparr>
             else this\<lparr>map' := Some m\<rparr>)
          else this)"
  by (simp add: link_map_def mapResolve_def Let_def)

lemma css_resolve_from [simp]: "css (resolve_from path opts this) = css this"
  by (simp add: resolve_from_def split: option.splits)

lemma hasBOM_resolve_from [simp]: "hasBOM (resolve_from path opts this) = hasBOM this"
  by (simp add: resolve_from_def split: option.splits)

lemma css_assign_id [simp]: "css (fst (assign_id n this)) = css this"
  by (simp add: assign_id_def)

lemma hasBOM_assign_id [simp]: "hasBOM (fst (assign_id n this)) = hasBOM this"
  by (simp add: assign_id_def)

lemma css_bind_map_file [simp]: "css (bind_map_file this) = css this"
  by (simp add: bind_map_file_def split: option.splits)

lemma hasBOM_bind_map_file [simp]: "hasBOM (bind_map_file this) = hasBOM this"
  by (simp add: bind_map_file_def split: option.splits)

lemma link_map_total:
  "\<exists>this'. link_map path m this = Inr this' \<and> css this' = css this \<and> hasBOM this' = hasBOM this"
  by (simp add: link_map_Inr)

text \<open>On a text the constructor always returns an input; its stored text and marker flag
  are those the first block computed.\<close>

lemma Input_constructor_text:
  "\<exists>this n. Input_constructor path PreviousMap sequence (CssText t) opts = Inr (this, n)
     \<and> css this = css (strip_bom \<lparr>css = t, hasBOM = False, file = None, id' = None, map' = None\<rparr>)
     \<and> hasBOM this = hasBOM (strip_bom \<lparr>css = t, hasBOM = False, file = None, id' = None, map' = None\<rparr>)"
proof -
  define this0 where "this0 = strip_bom \<lparr>css = t, hasBOM = False, file = None, id' = None, map' = None\<rparr>"
  define this1 where "this1 = resolve_from path opts this0"
  obtain this2 where l: "link_map path (PreviousMap (css this1) opts) this1 = Inr this2"
    and c2: "css this2 = css this1" and b2: "hasBOM this2 = hasBOM this1"
    using link_map_total by blast
  obtain this3 n where a: "assign_id sequence this2 = (this3, n)"
    by (cases "assign_id sequence this2")
  then have c3: "css this3 = css this2" and b3: "hasBOM this3 = hasBOM this2"
    using css_assign_id [of sequence this2] hasBOM_assign_id [of sequence this2] by simp_all
  have "Input_constructor path PreviousMap sequence (CssText t) opts = Inr (bind_map_file this3, n)"
    using l a by (simp add: Input_constructor_def this0_def this1_def Let_def)
  moreover have "css (bind_map_file this3) = css this0" "hasBOM (bind_map_file this3) = hasBOM this0"
    using c2 b2 c3 b3 by (simp_all add: this1_def)
  ultimately show ?thesis
    unfolding this0_def by blast
qed

text \<open>
  C5. For every input text the constructor returns an input. If the first character of
  the text is U+FEFF or U+FFFE, \<open>hasBOM\<close> is true and the stored text is the input without
  that one character (a second marker stays, being the head of the rest); otherwise
  \<open>hasBOM\<close> is false and the stored text is the input.
\<close>

theorem Input_constructor_bom:
  "\<exists>this n. Input_constructor path PreviousMap sequence (CssText t) opts = Inr (this, n)
     \<and> (case t of
          [] \<Rightarrow> \<not> hasBOM this \<and> css this = t
        | c # rest \<Rightarrow>
            if c = 0xFEFF \<or> c = 0xFFFE then hasBOM this \<and> css this = rest
            else \<not> hasBOM this \<and> css this = t)"
proof -
  obtain this n where
    "Input_constructor path PreviousMap sequence (CssText t) opts = Inr (this, n)"
    "css this = css (strip_bom \<lparr>css = t, hasBOM = False, file = None, id' = None, map' = None\<rparr>)"
    "hasBOM this = hasBOM (strip_bom \<lparr>css = t, hasBOM = False, file = None, id' = None, map' = None\<rparr>)"
    using Input_constructor_text by blast
  then show ?thesis
    by (cases t) (auto simp: strip_bom_def first_unit_def)
qed

theorem Input_constructor_bom_witness:
  "\<exists>this n. Input_constructor work_path no_previous_map 0 (CssText (0xFEFF # 0xFEFF # js ''a{}'')) no_opts
       = Inr (this, n)
     \<and> hasBOM this \<and> css this = 0xFEFF # js ''a{}''"
  using Input_constructor_bom [of work_path no_previous_map 0 "0xFEFF # 0xFEFF # js ''a{}''" no_opts]
  by simp

lemma unat_unit: "k < 65536 \<Longrightarrow> unat (of_nat k :: jschar) = k"
  by (simp only: unat_of_nat) simp

lemma undecimal_decimal: "undecimal (decimal n) = n"
proof (induction n rule: decimal.induct)
  case (1 n)
  show ?case
  proof (cases "n < 10")
    case True
    then have "unat (of_nat (48 + n) :: jschar) = 48 + n"
      by (intro unat_unit) simp
    with True show ?thesis
      by (simp add: decimal.simps [of n] undecimal_def)
  next
    case False
    have "n mod 10 < 10" by simp
    then have "unat (of_nat (48 + n mod 10) :: jschar) = 48 + n mod 10"
      by (intro unat_unit) simp
    with False 1 show ?thesis
      by (simp add: decimal.simps [of n] undecimal_def)
  qed
qed

lemma synthetic_id_inj: "synthetic_id a = synthetic_id b \<Longrightarrow> a = b"
proof -
  assume "synthetic_id a = synthetic_id b"
  then have "decimal a = decimal b"
    by (simp add: synthetic_id_def)
  then have "undecimal (decimal a) = undecimal (decimal b)"
    by simp
  then show "a = b"
    by (simp add: undecimal_decimal)
qed

text \<open>What the constructor does to the counter and the identifier, for any arguments.\<close>

lemma Input_constructor_id:
  assumes "Input_constructor path PreviousMap sequence c opts = Inr (this, n)"
  shows "if truthy (file this) then id' this = None \<and> n = sequence
         else id' this = Some (synthetic_id (Suc sequence)) \<and> n = Suc sequence"
proof -
  from assms obtain t where c: "c = CssText t"
    by (cases c) (simp_all add: Input_constructor_def)
  define this1 where
    "this1 = resolve_from path opts (strip_bom \<lparr>css = t, hasBOM = False, file = None, id' = None, map' = None\<rparr>)"
  obtain this2 where l: "link_map path (PreviousMap (css this1) opts) this1 = Inr this2"
    using link_map_total by blast
  have i1: "id' this1 = None"
    by (simp add: this1_def resolve_from_def strip_bom_def split: option.splits)
  have i2: "id' this2 = None"
    using l i1 by (auto simp: link_map_Inr split: if_splits)
  have r: "this = bind_map_file (fst (assign_id sequence this2))" "n = snd (assign_id sequence this2)"
    using assms l by (simp_all add: c Input_constructor_def this1_def Let_def split: prod.splits)
  have f: "file (bind_map_file x) = file x" and i: "id' (bind_map_file x) = id' x" for x
    by (simp_all add: bind_map_file_def split: option.splits)
  show ?thesis
    using i2 by (simp add: r f i assign_id_def)
qed

text \<open>An anonymous construction from a text: the next identifier, no file.\<close>

lemma Input_constructor_anonymous:
  assumes "anonymous PreviousMap (t, opts)"
  shows "\<exists>this. Input_constructor path PreviousMap sequence (CssText t) opts = Inr (this, Suc sequence)
           \<and> id' this = Some (synthetic_id (Suc sequence)) \<and> \<not> truthy (file this)"
proof -
  define this0 where "this0 = strip_bom \<lparr>css = t, hasBOM = False, file = None, id' = None, map' = None\<rparr>"
  have nf: "\<not> truthy (opts_from opts)"
    using assms by (simp add: anonymous_def)
  have f0: "file this0 = None"
    by (simp add: this0_def strip_bom_def)
  have r1: "resolve_from path opts this0 = this0"
    using nf by (simp add: resolve_from_def truthy_def split: option.splits)
  have nm: "\<not> (truthy (pm_text (PreviousMap (css this0) opts))
               \<and> truthy (mc_file (consumer (PreviousMap (css this0) opts))))"
    using assms by (simp add: anonymous_def stored_text_def this0_def)
  obtain this2 where l: "link_map path (PreviousMap (css this0) opts) this0 = Inr this2"
    and f2: "file this2 = None"
    using nm f0 by (auto simp: link_map_Inr)
  obtain this n where k: "Input_constructor path PreviousMap sequence (CssText t) opts = Inr (this, n)"
    using Input_constructor_text by blast
  have "this = bind_map_file (fst (assign_id sequence this2))"
    using k l r1 by (simp add: Input_constructor_def this0_def Let_def split: prod.splits)
  then have "file this = None"
    using f2 by (simp add: bind_map_file_def assign_id_def truthy_def split: option.splits)
  then have "\<not> truthy (file this)"
    by (simp add: truthy_def)
  with Input_constructor_id [OF k] k show ?thesis
    by auto
qed

lemma construct_all_anonymous:
  assumes "\<forall>a \<in> set args. anonymous PreviousMap a"
  shows "\<exists>inputs. construct_all path PreviousMap sequence (map (\<lambda>a. (CssText (fst a), snd a)) args)
             = Inr (inputs, sequence + length args)
           \<and> map id' inputs = map (\<lambda>k. Some (synthetic_id k)) [Suc sequence ..< Suc (sequence + length args)]
           \<and> (\<forall>this \<in> set inputs. \<not> truthy (file this))"
  using assms
proof (induction args arbitrary: sequence)
  case Nil
  then show ?case by simp
next
  case (Cons a args)
  then have "anonymous PreviousMap (fst a, snd a)"
    by simp
  then obtain this where
    h: "Input_constructor path PreviousMap sequence (CssText (fst a)) (snd a) = Inr (this, Suc sequence)"
      "id' this = Some (synthetic_id (Suc sequence))" "\<not> truthy (file this)"
    using Input_constructor_anonymous by blast
  from Cons obtain inputs where
    t: "construct_all path PreviousMap (Suc sequence) (map (\<lambda>a. (CssText (fst a), snd a)) args)
             = Inr (inputs, Suc sequence + length args)"
      "map id' inputs = map (\<lambda>k. Some (synthetic_id k)) [Suc (Suc sequence) ..< Suc (Suc sequence + length args)]"
      "\<forall>this \<in> set inputs. \<not> truthy (file this)"
    by fastforce
  have "[Suc sequence ..< Suc (sequence + length (a # args))]
          = Suc sequence # [Suc (Suc sequence) ..< Suc (Suc sequence + length args)]"
    by (simp add: upt_rec)
  with h t show ?case
    by simp
qed

text \<open>
  C6. In a process whose counter starts at 0, constructing \<open>N\<close> inputs from texts, none
  with a \<open>from\<close> option or a file declared by its map, succeeds and gives them the
  identifiers \<open><input css 1>\<close> to \<open><input css N>\<close> in the order of construction, all
  different, and leaves the counter at \<open>N\<close>. Any construction at all moves the counter
  by one when it ends without a file and then sets the identifier from the new value;
  when it ends with a file it leaves the counter alone and sets no identifier.
\<close>

theorem synthetic_ids_in_order:
  assumes "\<forall>a \<in> set args. anonymous PreviousMap a"
  shows "(\<exists>inputs. construct_all path PreviousMap 0 (map (\<lambda>a. (CssText (fst a), snd a)) args)
               = Inr (inputs, length args)
            \<and> map id' inputs = map (\<lambda>k. Some (synthetic_id k)) [1 ..< Suc (length args)]
            \<and> distinct (map id' inputs)
            \<and> (\<forall>this \<in> set inputs. \<not> truthy (file this)))
         \<and> (\<forall>sequence c opts this n.
               Input_constructor path PreviousMap sequence c opts = Inr (this, n) \<longrightarrow>
               (if truthy (file this) then id' this = None \<and> n = sequence
                else id' this = Some (synthetic_id (Suc sequence)) \<and> n = Suc sequence))"
proof -
  obtain inputs where
    r: "construct_all path PreviousMap 0 (map (\<lambda>a. (CssText (fst a), snd a)) args)
          = Inr (inputs, 0 + length args)"
      "map id' inputs = map (\<lambda>k. Some (synthetic_id k)) [Suc 0 ..< Suc (0 + length args)]"
      "\<forall>this \<in> set inputs. \<not> truthy (file this)"
    using construct_all_anonymous [OF assms] by blast
  have "inj_on (\<lambda>k. Some (synthetic_id k)) (set [Suc 0 ..< Suc (0 + length args)])"
    by (auto simp: inj_on_def dest: synthetic_id_inj)
  then have "distinct (map id' inputs)"
    unfolding r(2) by (simp add: distinct_map)
  with r have "\<exists>inputs. construct_all path PreviousMap 0 (map (\<lambda>a. (CssText (fst a), snd a)) args)
               = Inr (inputs, length args)
            \<and> map id' inputs = map (\<lambda>k. Some (synthetic_id k)) [1 ..< Suc (length args)]
            \<and> distinct (map id' inputs)
            \<and> (\<forall>this \<in> set inputs. \<not> truthy (file this))"
    by auto
  then show ?thesis
    using Input_constructor_id by blast
qed

theorem synthetic_ids_in_order_witness:
  "\<exists>inputs. construct_all work_path no_previous_map 0
               [(CssText (js ''a{}''), no_opts), (CssText (js ''b{}''), no_opts)] = Inr (inputs, 2)
     \<and> map id' inputs = [Some (js ''<input css 1>''), Some (js ''<input css 2>'')]
     \<and> distinct (map id' inputs)"
proof -
  have a: "\<forall>a \<in> set [(js ''a{}'', no_opts), (js ''b{}'', no_opts)]. anonymous no_previous_map a"
    by (simp add: anonymous_def no_opts_def no_previous_map_def truthy_def)
  have s: "synthetic_id (Suc 0) = js ''<input css 1>''" "synthetic_id 2 = js ''<input css 2>''"
    by (simp_all add: synthetic_id_def decimal.simps js_def)
  have u: "[1 ..< Suc (length [(js ''a{}'', no_opts), (js ''b{}'', no_opts)])] = [1, 2]"
    by (simp add: upt_rec)
  show ?thesis
    using synthetic_ids_in_order [OF a, of work_path] unfolding u
    by (auto simp: s)
qed

section \<open>Properties of the position mapping\<close>

lemma mapResolve_linked:
  "map' this = Some m \<Longrightarrow>
   mapResolve path this f =
     Inr (if is_url f then f else resolve path [or_else (sourceRoot (consumer m)) (js ''.''), f])"
  by (simp add: mapResolve_def)

text \<open>
  C10. Without a linked map, \<open>mapResolve\<close> of a candidate that does not match the URL
  pattern raises (it reads the consumer of a map that is not there) and returns no
  path; a URL candidate is returned as it is.
\<close>

theorem mapResolve_without_map:
  "map' this = None \<Longrightarrow> mapResolve path this f = (if is_url f then Inr f else Inl TypeError)"
  by (simp add: mapResolve_def)

theorem mapResolve_without_map_witness:
  "mapResolve work_path \<lparr>css = js ''a{}'', hasBOM = False, file = None, id' = Some (synthetic_id 1), map' = None\<rparr>
       (js ''a.sass'') = Inl TypeError
   \<and> mapResolve work_path \<lparr>css = js ''a{}'', hasBOM = False, file = None, id' = Some (synthetic_id 1), map' = None\<rparr>
       (js ''http://x/a.sass'') = Inr (js ''http://x/a.sass'')"
  using
    mapResolve_without_map [of "\<lparr>css = js ''a{}'', hasBOM = False, file = None, id' = Some (synthetic_id 1), map' = None\<rparr>"
      work_path "js ''a.sass''"]
    mapResolve_without_map [of "\<lparr>css = js ''a{}'', hasBOM = False, file = None, id' = Some (synthetic_id 1), map' = None\<rparr>"
      work_path "js ''http://x/a.sass''"]
  by (simp add: is_url_def word_unit_def js_def)

text \<open>
  C8. A URL passes through \<open>mapResolve\<close> unchanged. For a candidate that is a URL or an
  already resolved absolute path (one that resolution against any root returns as it
  is), applying \<open>mapResolve\<close> to the result of \<open>mapResolve\<close> gives what one application
  gives.
\<close>

theorem mapResolve_idempotent:
  assumes "is_url c \<or> (\<forall>root. resolve path [root, c] = c)"
  shows "(case mapResolve path this c of Inl e \<Rightarrow> Inl e | Inr r \<Rightarrow> mapResolve path this r)
           = mapResolve path this c
         \<and> (is_url c \<longrightarrow> mapResolve path this c = Inr c)"
proof (cases "is_url c")
  case True
  then show ?thesis by (simp add: mapResolve_def)
next
  case False
  with assms have r: "\<And>root. resolve path [root, c] = c" by blast
  show ?thesis
  proof (cases "map' this")
    case None
    with False show ?thesis by (simp add: mapResolve_def)
  next
    case (Some m)
    with False r show ?thesis by (simp add: mapResolve_linked)
  qed
qed

theorem mapResolve_idempotent_witness:
  "mapResolve work_path \<lparr>css = [], hasBOM = False, file = None, id' = None, map' = Some sass_map\<rparr>
       (js ''/src/a.sass'') = Inr (js ''/src/a.sass'')
   \<and> (case mapResolve work_path \<lparr>css = [], hasBOM = False, file = None, id' = None, map' = Some sass_map\<rparr>
              (js ''/src/a.sass'') of
         Inl e \<Rightarrow> Inl e
       | Inr r \<Rightarrow> mapResolve work_path \<lparr>css = [], hasBOM = False, file = None, id' = None, map' = Some sass_map\<rparr> r)
       = Inr (js ''/src/a.sass'')"
proof -
  have abs: "is_url (js ''/src/a.sass'') \<or> (\<forall>root. resolve work_path [root, js ''/src/a.sass''] = js ''/src/a.sass'')"
    by (simp add: work_path_def join_segment_def first_unit_def js_def)
  have one: "mapResolve work_path \<lparr>css = [], hasBOM = False, file = None, id' = None, map' = Some sass_map\<rparr>
       (js ''/src/a.sass'') = Inr (js ''/src/a.sass'')"
    by (simp add: mapResolve_def is_url_def word_unit_def work_path_def join_segment_def
        first_unit_def js_def)
  show ?thesis
    using mapResolve_idempotent [OF abs,
        of "\<lparr>css = [], hasBOM = False, file = None, id' = None, map' = Some sass_map\<rparr>"] one
    by simp
qed

lemma origin_linked:
  "map' this = Some m \<Longrightarrow>
   origin path this line column =
     (let from = originalPositionFor (consumer m) line column in
      if truthy (p_source from) then
        ([OriginalPositionFor line column, SourceContentFor (or_else (p_source from) [])],
         Inr (Some \<lparr>o_file = (if is_url (or_else (p_source from) []) then or_else (p_source from) []
                               else resolve path [or_else (sourceRoot (consumer m)) (js ''.''),
                                                  or_else (p_source from) []]),
                    o_line = p_line from, o_column = p_column from,
                    o_source = (if truthy (sourceContentFor (consumer m) (or_else (p_source from) []))
                                then sourceContentFor (consumer m) (or_else (p_source from) [])
                                else None)\<rparr>))
      else ([OriginalPositionFor line column], Inr None))"
  by (simp add: origin_def mapResolve_linked Let_def truthy_def or_else_def split: option.splits)

text \<open>
  C7. With no map linked, \<open>origin\<close> returns \<open>false\<close> and has put no query to a consumer.
  With a map linked it never raises: it returns \<open>false\<close> when the consumer knows no
  original source for the position, and an origin result otherwise.
\<close>

theorem origin_false_or_result:
  "(case map' this of
      None \<Rightarrow> origin path this line column = ([], Inr None)
    | Some m \<Rightarrow>
        if truthy (p_source (originalPositionFor (consumer m) line column))
        then \<exists>r. snd (origin path this line column) = Inr (Some r)
        else snd (origin path this line column) = Inr None)"
proof (cases "map' this")
  case None
  then show ?thesis by (simp add: origin_def)
next
  case (Some m)
  then show ?thesis by (simp add: origin_linked Let_def)
qed

theorem origin_false_or_result_witness:
  "origin work_path \<lparr>css = js ''a{}'', hasBOM = False, file = None, id' = Some (synthetic_id 1), map' = None\<rparr> 2 5
     = ([], Inr None)
   \<and> snd (origin work_path \<lparr>css = js ''a{}'', hasBOM = False, file = None, id' = Some (synthetic_id 1),
                           map' = Some sass_map\<rparr> 1 1) = Inr None"
  using
    origin_false_or_result [where path = work_path and line = 2 and column = 5 and
      this = "\<lparr>css = js ''a{}'', hasBOM = False, file = None, id' = Some (synthetic_id 1), map' = None\<rparr>"]
    origin_false_or_result [where path = work_path and line = 1 and column = 1 and
      this = "\<lparr>css = js ''a{}'', hasBOM = False, file = None, id' = Some (synthetic_id 1),
                map' = Some sass_map\<rparr>"]
  by (simp add: sass_map_def sass_consumer_def unmapped_def truthy_def)

section \<open>Properties of the diagnostic\<close>

lemma get_prop_set_prop:
  "get_prop (set_prop k v obj) k' = (if k' = k then Some v else get_prop obj k')"
  by (induction obj) (auto simp: get_prop_def)

lemma get_prop_CssSyntaxError_line:
  "get_prop (CssSyntaxError message line column source file_arg plugin) ''line'' = Some (Num line)"
  by (simp add: get_prop_def CssSyntaxError_def)

lemma get_prop_CssSyntaxError_column:
  "get_prop (CssSyntaxError message line column source file_arg plugin) ''column'' = Some (Num column)"
  by (simp add: get_prop_def CssSyntaxError_def)

lemma get_prop_CssSyntaxError_generated:
  "get_prop (CssSyntaxError message line column source file_arg plugin) ''generated'' = None"
  by (simp add: get_prop_def CssSyntaxError_def opt_prop_def split: option.splits)

lemma origin_never_raises:
  "\<exists>r. snd (origin path this line column) = Inr r"
proof (cases "map' this")
  case None
  then show ?thesis by (simp add: origin_def)
next
  case (Some m)
  then show ?thesis by (simp add: origin_linked Let_def)
qed

lemma error_result:
  "\<exists>r. snd (origin path this line column) = Inr r
     \<and> error path this message line column plugin =
         Inr (set_prop ''input'' (Obj (input_location this line column))
               (case r of
                  Some org \<Rightarrow> CssSyntaxError message (o_line org) (o_column org) (o_source org)
                                (Some (o_file org)) plugin
                | None \<Rightarrow> CssSyntaxError message line column (Some (css this)) (file this) plugin))"
proof -
  obtain r where r: "snd (origin path this line column) = Inr r"
    using origin_never_raises by blast
  have "(if truthy (file this)
         then set_prop ''file'' (Str (or_else (file this) []))
                [(''line'', Num line), (''column'', Num column), (''source'', Str (css this))]
         else [(''line'', Num line), (''column'', Num column), (''source'', Str (css this))])
        = input_location this line column"
    by (simp add: input_location_def truthy_def or_else_def split: option.splits)
  with r show ?thesis
    by (simp add: error_def Let_def)
qed

text \<open>
  C3. Let the map linked to a source send generated line 2, column 5 to \<open>a.sass\<close>, line 10,
  column 3. Then \<open>origin(2, 5)\<close> returns the file \<open>a.sass\<close> resolved against the root of
  the map, with line 10 and column 3; and \<open>error(message, 2, 5)\<close> returns a diagnostic
  with line 10 and column 3 whose attached secondary location (the property \<open>input\<close>)
  has line 2 and column 5.
\<close>

theorem origin_and_error_mapped:
  assumes "map' this = Some m"
    and "originalPositionFor (consumer m) 2 5 = \<lparr>p_source = Some (js ''a.sass''), p_line = 10, p_column = 3\<rparr>"
  shows "(\<exists>r. snd (origin path this 2 5) = Inr (Some r)
            \<and> o_file r = resolve path [or_else (sourceRoot (consumer m)) (js ''.''), js ''a.sass'']
            \<and> o_line r = 10 \<and> o_column r = 3)
         \<and> (\<exists>d loc. error path this message 2 5 plugin = Inr d
            \<and> get_prop d ''line'' = Some (Num 10) \<and> get_prop d ''column'' = Some (Num 3)
            \<and> get_prop d ''input'' = Some (Obj loc)
            \<and> get_prop loc ''line'' = Some (Num 2) \<and> get_prop loc ''column'' = Some (Num 5))"
proof -
  have nu: "\<not> is_url (js ''a.sass'')"
    by (simp add: is_url_def word_unit_def js_def)
  have o: "snd (origin path this 2 5) =
      Inr (Some \<lparr>o_file = resolve path [or_else (sourceRoot (consumer m)) (js ''.''), js ''a.sass''],
                 o_line = 10, o_column = 3,
                 o_source = (if truthy (sourceContentFor (consumer m) (js ''a.sass''))
                             then sourceContentFor (consumer m) (js ''a.sass'') else None)\<rparr>)"
    using assms nu by (simp add: origin_linked Let_def truthy_def or_else_def js_def)
  have loc: "get_prop (input_location this 2 5) ''line'' = Some (Num 2)"
    "get_prop (input_location this 2 5) ''column'' = Some (Num 5)"
    by (simp_all add: input_location_def get_prop_def)
  obtain r where r: "snd (origin path this 2 5) = Inr r"
    and e: "error path this message 2 5 plugin =
         Inr (set_prop ''input'' (Obj (input_location this 2 5))
               (case r of
                  Some org \<Rightarrow> CssSyntaxError message (o_line org) (o_column org) (o_source org)
                                (Some (o_file org)) plugin
                | None \<Rightarrow> CssSyntaxError message 2 5 (Some (css this)) (file this) plugin))"
    using error_result by blast
  from r o obtain org where org: "r = Some org" "o_line org = 10" "o_column org = 3"
    by auto
  have "get_prop (set_prop ''input'' (Obj (input_location this 2 5))
          (CssSyntaxError message 10 3 (o_source org) (Some (o_file org)) plugin)) ''line'' = Some (Num 10)"
    "get_prop (set_prop ''input'' (Obj (input_location this 2 5))
          (CssSyntaxError message 10 3 (o_source org) (Some (o_file org)) plugin)) ''column'' = Some (Num 3)"
    "get_prop (set_prop ''input'' (Obj (input_location this 2 5))
          (CssSyntaxError message 10 3 (o_source org) (Some (o_file org)) plugin)) ''input''
       = Some (Obj (input_location this 2 5))"
    by (simp_all add: get_prop_set_prop get_prop_CssSyntaxError_line get_prop_CssSyntaxError_column)
  with e org loc have "\<exists>d loc. error path this message 2 5 plugin = Inr d
            \<and> get_prop d ''line'' = Some (Num 10) \<and> get_prop d ''column'' = Some (Num 3)
            \<and> get_prop d ''input'' = Some (Obj loc)
            \<and> get_prop loc ''line'' = Some (Num 2) \<and> get_prop loc ''column'' = Some (Num 5)"
    by simp
  moreover from o have "\<exists>r. snd (origin path this 2 5) = Inr (Some r)
            \<and> o_file r = resolve path [or_else (sourceRoot (consumer m)) (js ''.''), js ''a.sass'']
            \<and> o_line r = 10 \<and> o_column r = 3"
    by simp
  ultimately show ?thesis by blast
qed

theorem origin_and_error_mapped_witness:
  "(\<exists>r. snd (origin work_path sass_input 2 5) = Inr (Some r)
      \<and> o_file r = js ''/work/a.sass'' \<and> o_line r = 10 \<and> o_column r = 3)
   \<and> (\<exists>d loc. error work_path sass_input (js ''Unknown word'') 2 5 None = Inr d
      \<and> get_prop d ''line'' = Some (Num 10) \<and> get_prop d ''column'' = Some (Num 3)
      \<and> get_prop d ''input'' = Some (Obj loc)
      \<and> get_prop loc ''line'' = Some (Num 2) \<and> get_prop loc ''column'' = Some (Num 5))"
proof -
  have m: "map' sass_input = Some sass_map"
    by (simp add: sass_input_def)
  have q: "originalPositionFor (consumer sass_map) 2 5
             = \<lparr>p_source = Some (js ''a.sass''), p_line = 10, p_column = 3\<rparr>"
    by (simp add: sass_map_def sass_consumer_def)
  have f: "resolve work_path [or_else (sourceRoot (consumer sass_map)) (js ''.''), js ''a.sass'']
             = js ''/work/a.sass''"
    by (simp add: work_path_def join_segment_def or_else_def sass_map_def sass_consumer_def
        first_unit_def js_def)
  show ?thesis
    using origin_and_error_mapped [OF m q, of work_path "js ''Unknown word''" None]
    unfolding f .
qed

text \<open>
  C4 (as amended). For every call \<open>error(message, line, column, opts)\<close>, whether or not
  the position is mapped, the diagnostic returned carries the secondary location in a
  property named \<open>input\<close>: line, column and the text of the input as \<open>source\<close>, and \<open>file\<close>
  when the input has a file. It has no property named \<open>generated\<close>.
\<close>

theorem error_attaches_input:
  "\<exists>d. error path this message line column plugin = Inr d
     \<and> get_prop d ''input'' = Some (Obj (input_location this line column))
     \<and> get_prop d ''generated'' = None"
proof -
  obtain r where r: "snd (origin path this line column) = Inr r" and
    e: "error path this message line column plugin =
         Inr (set_prop ''input'' (Obj (input_location this line column))
               (case r of
                  Some org \<Rightarrow> CssSyntaxError message (o_line org) (o_column org) (o_source org)
                                (Some (o_file org)) plugin
                | None \<Rightarrow> CssSyntaxError message line column (Some (css this)) (file this) plugin))"
    using error_result by blast
  show ?thesis
    unfolding e
    by (cases r) (simp_all add: get_prop_set_prop get_prop_CssSyntaxError_generated)
qed

theorem error_attaches_input_witness:
  "\<exists>d. error work_path sass_input (js ''Unknown word'') 2 5 None = Inr d
     \<and> get_prop d ''input'' = Some (Obj [(''line'', Num 2), (''column'', Num 5), (''source'', Str (js ''a{}''))])
     \<and> get_prop d ''generated'' = None"
  using error_attaches_input [of work_path sass_input "js ''Unknown word''" 2 5 None]
  by (simp add: input_location_def sass_input_def)

text \<open>
  The claim as stated fails: the diagnostic for an unmapped position of an input with
  no map has the properties below, the secondary location under \<open>input\<close>; there is no
  property \<open>generated\<close>.
\<close>

theorem error_has_no_generated:
  "error work_path \<lparr>css = js ''a{'', hasBOM = False, file = Some (js ''/work/a.css''), id' = None, map' = None\<rparr>
      (js ''Unclosed block'') 1 1 None
     = Inr [(''message'', Str (js ''Unclosed block'')), (''line'', Num 1), (''column'', Num 1),
            (''source'', Str (js ''a{'')), (''file'', Str (js ''/work/a.css'')),
            (''input'', Obj [(''line'', Num 1), (''column'', Num 1), (''source'', Str (js ''a{'')),
                             (''file'', Str (js ''/work/a.css''))])]
   \<and> get_prop [(''message'', Str (js ''Unclosed block'')), (''line'', Num 1), (''column'', Num 1),
            (''source'', Str (js ''a{'')), (''file'', Str (js ''/work/a.css'')),
            (''input'', Obj [(''line'', Num 1), (''column'', Num 1), (''source'', Str (js ''a{'')),
                             (''file'', Str (js ''/work/a.css''))])] ''generated'' = None"
  by (simp add: error_def origin_def CssSyntaxError_def opt_prop_def truthy_def or_else_def
      get_prop_def js_def Let_def)

section \<open>Properties of the classifier\<close>

lemma getTokenType_category:
  "getTokenType tok p = Inr (category_of tok (fst (nextToken p)), p)"
  by (cases tok; cases p)
    (simp_all add: getTokenType_def category_of_def endOfFile_def nextToken_def back_def Let_def)

lemma nextToken_back:
  "nextToken p = (Some n, p1) \<Longrightarrow> back n p1 = p"
  by (cases p) (auto simp: nextToken_def back_def)

text \<open>
  C2 (as amended). A \<open>word\<close> token whose value begins with \<open>.\<close> is classified \<open>class\<close>
  whatever follows it: the test for a following parenthesis is never reached, so such a
  token is \<open>class\<close> also when an open parenthesis or a bracket group comes next.
\<close>

theorem getTokenType_dot_word_is_class:
  "first_unit v = Some (of_char CHR ''.'') \<Longrightarrow> getTokenType (''word'', v) p = Inr (''class'', p)"
  by (simp add: getTokenType_def)

theorem getTokenType_dot_word_is_class_witness:
  "getTokenType (''word'', js ''.foo'') [(''brackets'', js ''(a)'')]
     = Inr (''class'', [(''brackets'', js ''(a)'')])"
  by (rule getTokenType_dot_word_is_class) (simp add: first_unit_def js_def)

text \<open>
  The claim as stated fails: in \<open>.foo(\<close> the token \<open>.foo\<close> is followed by an open
  parenthesis and is classified \<open>class\<close>, not \<open>call\<close>.
\<close>

theorem getTokenType_dot_word_before_paren:
  "getTokenType (''word'', js ''.foo'') [(''('', js ''('')] = Inr (''class'', [(''('', js ''('')])
   \<and> getTokenType (''word'', js ''.foo'') [(''('', js ''('')] \<noteq> Inr (''call'', [(''('', js ''('')])"
  by (simp add: getTokenType_def first_unit_def js_def)

text \<open>
  C9. For every token and every state of the stream, classification returns a category
  and the stream in the state it had before. The category is the one the token and the
  next token of the stream determine; when the stream has a next token, handing back
  what \<open>nextToken()\<close> delivered restores the stream, whether or not the peeked token is a
  parenthesis.
\<close>

theorem getTokenType_leaves_stream:
  "getTokenType tok p = Inr (category_of tok (fst (nextToken p)), p)
   \<and> (case nextToken p of (Some n, p1) \<Rightarrow> back n p1 = p | (None, p1) \<Rightarrow> endOfFile p \<and> p1 = p)"
  by (cases tok; cases p)
    (simp_all add: getTokenType_def category_of_def endOfFile_def nextToken_def back_def Let_def)

theorem getTokenType_leaves_stream_witness:
  "getTokenType (''word'', js ''rgb'') [(''brackets'', js ''(0,0,0)''), ('';'', js '';'')]
     = Inr (''call'', [(''brackets'', js ''(0,0,0)''), ('';'', js '';'')])
   \<and> getTokenType (''word'', js ''red'') [('';'', js '';'')] = Inr (''word'', [('';'', js '';'')])"
  using getTokenType_leaves_stream [of "(''word'', js ''rgb'')" "[(''brackets'', js ''(0,0,0)''), ('';'', js '';'')]"]
    getTokenType_leaves_stream [of "(''word'', js ''red'')" "[('';'', js '';'')]"]
  by (simp add: category_of_def nextToken_def first_unit_def js_def)

section \<open>Properties of the rendering\<close>

lemma loop_rendered: "terminalHighlight_loop p acc = Inr (acc @ rendered p)"
proof (induction p arbitrary: acc)
  case Nil
  show ?case by (subst terminalHighlight_loop.simps) (simp add: endOfFile_def)
next
  case (Cons t ts)
  have g: "getTokenType t ts = Inr (category_of t (case ts of [] \<Rightarrow> None | n # _ \<Rightarrow> Some n), ts)"
    by (simp add: getTokenType_category nextToken_def split: list.splits)
  show ?case
    by (subst terminalHighlight_loop.simps)
      (simp add: endOfFile_def nextToken_def g Cons.IH split: option.splits)
qed

lemma strip_plain: "ESC \<notin> set s \<Longrightarrow> strip_colors (s @ r) = s @ strip_colors r"
  by (induction s) auto

lemma strip_open: "strip_colors (ansi_open c @ r) = strip_colors r"
  by (cases c) (simp_all add: ansi_open_def sgr_tail_def js_def)

lemma strip_close: "strip_colors (ansi_close @ r) = strip_colors r"
  by (simp add: ansi_close_def sgr_tail_def js_def)

lemma strip_paint: "ESC \<notin> set s \<Longrightarrow> strip_colors (paint c s @ r) = s @ strip_colors r"
  by (simp add: paint_def strip_open strip_plain strip_close)

lemma LF_not_ESC: "LF \<noteq> ESC"
  by (simp add: LF_def ESC_def)

lemma strip_join:
  "\<forall>s \<in> set segs. ESC \<notin> set s \<Longrightarrow>
   strip_colors (join_lines (map (paint c) segs) @ r) = join_lines segs @ strip_colors r"
proof (induction segs rule: join_lines.induct)
  case 1
  then show ?case by simp
next
  case (2 s)
  then show ?case by (simp add: strip_paint)
next
  case (3 s t rest)
  then have "strip_colors (join_lines (map (paint c) (t # rest)) @ r) = join_lines (t # rest) @ strip_colors r"
    by simp
  moreover have "strip_colors (LF # x) = LF # strip_colors x" for x
    using LF_not_ESC by simp
  ultimately show ?case
    using 3 by (simp add: strip_paint)
qed

lemma split_lines_nonempty: "split_lines v \<noteq> []"
  by (induction v rule: split_lines.induct) (auto simp: push_unit_def split: list.splits)

lemma units_push_unit: "\<Union>(set ` set (push_unit c segs)) = insert c (\<Union>(set ` set segs))"
  by (cases segs) (auto simp: push_unit_def)

lemma units_split_lines: "\<Union>(set ` set (split_lines v)) \<subseteq> set v"
proof (induction v rule: split_lines.induct)
  case 1
  show ?case by simp
next
  case (2 c)
  show ?case by simp
next
  case (3 c d cs)
  then show ?case
    by (simp only: split_lines.simps units_push_unit split: if_splits) auto
qed

lemma split_lines_no_ESC: "ESC \<notin> set v \<Longrightarrow> \<forall>s \<in> set (split_lines v). ESC \<notin> set s"
  using units_split_lines [of v] by auto

lemma join_lines_Cons: "segs \<noteq> [] \<Longrightarrow> join_lines (s # segs) = s @ LF # join_lines segs"
  by (cases segs) simp_all

lemma join_lines_push: "segs \<noteq> [] \<Longrightarrow> join_lines (push_unit c segs) = c # join_lines segs"
  by (cases segs rule: join_lines.cases) (simp_all add: push_unit_def)

lemma join_split: "join_lines (split_lines v) = crlf_to_lf v"
  by (induction v rule: split_lines.induct)
    (auto simp: join_lines_Cons join_lines_push split_lines_nonempty LF_def CR_def)

lemma crlf_free: "\<not> contains_crlf v \<Longrightarrow> crlf_to_lf v = v"
  by (induction v rule: crlf_to_lf.induct) auto

lemma strip_rendered:
  "ESC \<notin> set (concat (map snd toks)) \<Longrightarrow> strip_colors (rendered toks) = plain_text toks"
proof (induction toks)
  case Nil
  show ?case by simp
next
  case (Cons t ts)
  then have e: "ESC \<notin> set (snd t)" and ih: "strip_colors (rendered ts) = plain_text ts"
    by simp_all
  show ?case
  proof (cases "map_of HIGHLIGHT_THEME (category_of t (case ts of [] \<Rightarrow> None | n # _ \<Rightarrow> Some n))")
    case None
    with e ih show ?thesis by (simp add: strip_plain)
  next
    case (Some color)
    with e ih show ?thesis
      by (simp add: strip_join split_lines_no_ESC join_split)
  qed
qed

lemma plain_text_crlf_free:
  "\<forall>t \<in> set toks. \<not> contains_crlf (snd t) \<Longrightarrow> plain_text toks = concat (map snd toks)"
  by (induction toks) (auto simp: crlf_free split: option.splits)

lemma terminalHighlight_text:
  "\<exists>n. terminalHighlight path PreviousMap tokenizer sequence (CssText t)
         = Inr (rendered (tokenizer (stored_text t)), n)"
proof -
  obtain this n where
    "Input_constructor path PreviousMap sequence (CssText t) \<lparr>opts_from = None, opts_map = None\<rparr> = Inr (this, n)"
    "css this = stored_text t"
    unfolding stored_text_def using Input_constructor_text by blast
  then show ?thesis
    by (simp add: terminalHighlight_def loop_rendered)
qed

text \<open>
  C1 (as amended). Let the token stream deliver the tokens of a text (their values, in
  order, make up the text), and let the text have no escape character of its own. Then
  rendering returns a string, and removing the colour-control sequences from it leaves
  the token values in stream order, where inside each value that received a colour a
  carriage return directly before a line feed is gone. If no token value has such a
  pair, what is left is the text, character for character.
\<close>

theorem render_strips_to_text:
  assumes "concat (map snd toks) = text" and "ESC \<notin> set text"
  shows "\<exists>out. terminalHighlight_loop toks [] = Inr out
           \<and> strip_colors out = plain_text toks
           \<and> ((\<forall>t \<in> set toks. \<not> contains_crlf (snd t)) \<longrightarrow> strip_colors out = text)"
proof -
  have l: "terminalHighlight_loop toks [] = Inr (rendered toks)"
    by (simp add: loop_rendered)
  have s: "strip_colors (rendered toks) = plain_text toks"
    using assms by (simp add: strip_rendered)
  have "(\<forall>t \<in> set toks. \<not> contains_crlf (snd t)) \<longrightarrow> plain_text toks = text"
    using assms(1) by (auto dest: plain_text_crlf_free)
  with l s show ?thesis
    by simp
qed

theorem render_strips_to_text_witness:
  "\<exists>out. terminalHighlight_loop
            [(''word'', js ''#main''), (''{'', js ''{''), (''word'', js ''color''), ('':'', js '':''),
             (''word'', js ''red''), (''}'', js ''}'')] [] = Inr out
     \<and> strip_colors out = js ''#main{color:red}''"
proof -
  have c: "concat (map snd [(''word'', js ''#main''), (''{'', js ''{''), (''word'', js ''color''),
             ('':'', js '':''), (''word'', js ''red''), (''}'', js ''}'')]) = js ''#main{color:red}''"
    by (simp add: js_def)
  have e: "ESC \<notin> set (js ''#main{color:red}'')"
    by (simp add: js_def ESC_def)
  have n: "\<forall>t \<in> set [(''word'', js ''#main''), (''{'', js ''{''), (''word'', js ''color''),
             ('':'', js '':''), (''word'', js ''red''), (''}'', js ''}'')]. \<not> contains_crlf (snd t)"
    by (simp add: js_def CR_def LF_def)
  show ?thesis
    using render_strips_to_text [OF c e] n by blast
qed

text \<open>
  The claim as stated fails on a comment that spans two lines ended by \<open>\r\n\<close>: the
  comment is coloured line by line and rejoined with a bare line feed, so what is left
  after removing the colours lacks the carriage return.
\<close>

theorem render_loses_carriage_return:
  "terminalHighlight_loop [(''comment'', js ''/*a'' @ [CR, LF] @ js ''b*/'')] []
     = Inr (ESC # js ''[90m/*a'' @ ESC # js ''[39m'' @ LF # ESC # js ''[90mb*/'' @ ESC # js ''[39m'')
   \<and> strip_colors (ESC # js ''[90m/*a'' @ ESC # js ''[39m'' @ LF # ESC # js ''[90mb*/'' @ ESC # js ''[39m'')
     = js ''/*a'' @ LF # js ''b*/''
   \<and> js ''/*a'' @ LF # js ''b*/'' \<noteq> concat (map snd [(''comment'', js ''/*a'' @ [CR, LF] @ js ''b*/'')])"
  by (simp add: terminalHighlight_loop.simps endOfFile_def nextToken_def getTokenType_def
      HIGHLIGHT_THEME_def js_def first_unit_def push_unit_def paint_def ansi_open_def
      ansi_close_def sgr_tail_def CR_def LF_def ESC_def)

end
